theory Spec2Isabelle
  imports Main
begin

section \<open>JavaScript values and string conversion\<close>

text \<open>
  The values an \<open>attrs\<close> bag (\<open>Record<string, any>\<close>) holds: strings, numbers, booleans,
  \<open>null\<close> and \<open>undefined\<close>. Numbers are the integers (the decimal form of a fraction or
  of a number beyond the safe-integer range is not modelled).
\<close>

datatype jsval = JString string | JNumber int | JBoolean bool | JNull | JUndefined

definition digit_char :: "nat \<Rightarrow> char" where
  "digit_char d = ''0123456789'' ! d"

text \<open>The decimal digits of a natural number, and \<open>Number.prototype.toString\<close> on an
  integer.\<close>

function decimal :: "nat \<Rightarrow> string" where
  "decimal n =
     (if n div 10 = 0 then [digit_char n]
      else decimal (n div 10) @ [digit_char (n mod 10)])"
  by pat_completeness auto
termination
  by (relation "measure id") auto

definition number_to_string :: "int \<Rightarrow> string" where
  "number_to_string i = (if 0 \<le> i then decimal (nat i) else CHR ''-'' # decimal (nat (- i)))"

text \<open>What a template literal \<open>`${v}`\<close> inserts for a value.\<close>

fun to_string :: "jsval \<Rightarrow> string" where
  "to_string (JString s) = s"
| "to_string (JNumber n) = number_to_string n"
| "to_string (JBoolean b) = (if b then ''true'' else ''false'')"
| "to_string JNull = ''null''"
| "to_string JUndefined = ''undefined''"

text \<open>JavaScript truthiness, as \<open>if (v)\<close> and \<open>v ? a : b\<close> test it.\<close>

fun truthy :: "jsval \<Rightarrow> bool" where
  "truthy (JString s) = (s \<noteq> [])"
| "truthy (JNumber n) = (n \<noteq> 0)"
| "truthy (JBoolean b) = b"
| "truthy JNull = False"
| "truthy JUndefined = False"

text \<open>\<open>Array.prototype.join\<close> on an array of strings.\<close>

fun join :: "string \<Rightarrow> string list \<Rightarrow> string" where
  "join sep [] = []"
| "join sep [x] = x"
| "join sep (x # y # ys) = x @ sep @ join sep (y # ys)"

text \<open>The double quote, written by its code so that it can stand inside a term.\<close>

definition dq :: string where
  "dq = [CHR 0x22]"

section \<open>The image URL builder\<close>

text \<open>
  The options bag of \<open>optimizeImage\<close>. Its type \<open>ImageOptimizationOptions\<close> is declared in
  \<open>./types\<close>; every field is optional (\<open>None\<close> is an absent field).
\<close>

record image_filters =
  blur :: "int option"
  brightness :: "int option"
  fill :: "string option"
  format :: "string option"
  grayscale :: "bool option"
  quality :: "int option"
  rotate_by :: "int option"

record image_options =
  width :: "int option"
  height :: "int option"
  loading :: "string option"
  css_class :: "string option"
  filters :: "image_filters option"

text \<open>The second parameter: \<open>options?: boolean | Partial<ImageOptimizationOptions>\<close>.\<close>

datatype options_arg = OptUndefined | OptBoolean bool | OptObject image_options

fun options_truthy :: "options_arg \<Rightarrow> bool" where
  "options_truthy OptUndefined = False"
| "options_truthy (OptBoolean b) = b"
| "options_truthy (OptObject opts) = True"

definition num_truthy :: "int option \<Rightarrow> bool" where
  "num_truthy v = (case v of None \<Rightarrow> False | Some n \<Rightarrow> n \<noteq> 0)"

definition str_truthy :: "string option \<Rightarrow> bool" where
  "str_truthy v = (case v of None \<Rightarrow> False | Some s \<Rightarrow> s \<noteq> [])"

definition bool_truthy :: "bool option \<Rightarrow> bool" where
  "bool_truthy v = (case v of None \<Rightarrow> False | Some b \<Rightarrow> b)"

text \<open>The pushes onto \<open>filterParams\<close>, in the order of the source (lines 20 to 26).\<close>

definition filterParams :: "image_filters \<Rightarrow> string list" where
  "filterParams f =
     (if num_truthy (blur f) then [''blur('' @ number_to_string (the (blur f)) @ '')''] else []) @
     (if num_truthy (quality f) then [''quality('' @ number_to_string (the (quality f)) @ '')''] else []) @
     (if num_truthy (brightness f)
      then [''brightness('' @ number_to_string (the (brightness f)) @ '')''] else []) @
     (if str_truthy (fill f) then [''fill('' @ the (fill f) @ '')''] else []) @
     (if bool_truthy (grayscale f) then [''grayscale()''] else []) @
     (if num_truthy (rotate_by f) \<and> the (rotate_by f) \<in> set [90, 180, 270]
      then [''rotate('' @ number_to_string (the (rotate_by f)) @ '')''] else []) @
     (if str_truthy (format f) \<and> the (format f) \<in> set [''webp'', ''png'', ''jpeg'']
      then [''format('' @ the (format f) @ '')''] else [])"

record image_result =
  src :: string
  attrs :: "(string \<times> jsval) list"

text \<open>The assignments to \<open>attrs\<close> (lines 10 to 13), in insertion order.\<close>

definition image_attrs :: "image_options \<Rightarrow> (string \<times> jsval) list" where
  "image_attrs opts =
     (if num_truthy (width opts) then [(''width'', JNumber (the (width opts)))] else []) @
     (if num_truthy (height opts) then [(''height'', JNumber (the (height opts)))] else []) @
     (if str_truthy (loading opts) \<and> the (loading opts) \<in> set [''lazy'', ''eager'']
      then [(''loading'', JString (the (loading opts)))] else []) @
     (if str_truthy (css_class opts) then [(''class'', JString (the (css_class opts)))] else [])"

definition optimizeImage :: "string \<Rightarrow> options_arg \<Rightarrow> image_result" where
  "optimizeImage source options =
     (if \<not> options_truthy options then \<lparr>src = source, attrs = []\<rparr>
      else
        let w = (case options of
                   OptObject opts \<Rightarrow> if num_truthy (width opts) then the (width opts) else 0
                 | _ \<Rightarrow> 0);
            h = (case options of
                   OptObject opts \<Rightarrow> if num_truthy (height opts) then the (height opts) else 0
                 | _ \<Rightarrow> 0);
            attrs0 = (case options of OptObject opts \<Rightarrow> image_attrs opts | _ \<Rightarrow> []);
            params = (case options of
                        OptObject opts \<Rightarrow>
                          (case filters opts of None \<Rightarrow> [] | Some f \<Rightarrow> filterParams f)
                      | _ \<Rightarrow> []);
            resultSrc0 = source @ ''/m/'';
            resultSrc1 = (if w > 0 \<and> h > 0
                          then resultSrc0 @ number_to_string w @ ''x'' @ number_to_string h
                          else resultSrc0);
            resultSrc2 = (if length params > 0
                          then resultSrc1 @ ''filters:'' @ join '':'' params
                          else resultSrc1)
        in \<lparr>src = resultSrc2, attrs = attrs0\<rparr>)"

section \<open>The rich-text document\<close>

text \<open>
  Modelled from the spec: the members of the enums \<open>BlockTypes\<close>, \<open>MarkTypes\<close>,
  \<open>TextTypes\<close> and \<open>LinkTypes\<close>, which the source imports from \<open>./types\<close>. The string each
  member stands for is the type identifier the specification's data model lists; the
  source itself compares a node's type with the literal \<open>'text'\<close>.
\<close>

definition DOCUMENT :: string where "DOCUMENT = ''document''"
definition HEADING :: string where "HEADING = ''heading''"
definition PARAGRAPH :: string where "PARAGRAPH = ''paragraph''"
definition UL_LIST :: string where "UL_LIST = ''unordered-list''"
definition OL_LIST :: string where "OL_LIST = ''ordered-list''"
definition LIST_ITEM :: string where "LIST_ITEM = ''list-item''"
definition TEXT :: string where "TEXT = ''text''"
definition LINK :: string where "LINK = ''link''"
definition ANCHOR :: string where "ANCHOR = ''anchor''"
definition STYLED :: string where "STYLED = ''styled''"
definition BOLD :: string where "BOLD = ''bold''"
definition ITALIC :: string where "ITALIC = ''italic''"
definition UNDERLINE :: string where "UNDERLINE = ''underline''"
definition STRIKE :: string where "STRIKE = ''strike''"
definition CODE :: string where "CODE = ''code''"
definition SUPERSCRIPT :: string where "SUPERSCRIPT = ''superscript''"
definition SUBSCRIPT :: string where "SUBSCRIPT = ''subscript''"
definition HIGHLIGHT :: string where "HIGHLIGHT = ''highlight''"

definition ASSET :: string where "ASSET = ''asset''"
definition URL :: string where "URL = ''url''"
definition EMAIL :: string where "EMAIL = ''email''"
definition STORY :: string where "STORY = ''story''"

text \<open>
  An attribute bag is the list of its entries in the order \<open>Object.keys\<close> enumerates them;
  \<open>attrs[key]\<close> is the first entry under the key.
\<close>

type_synonym attr_bag = "(string \<times> jsval) list"

text \<open>A mark of a text node: its type and its optional attributes.\<close>

record mark =
  mark_type :: string
  mark_attrs :: "attr_bag option"

text \<open>
  A node object. \<open>None\<close> is an absent property. \<open>node_children\<close> is the property
  \<open>children\<close> that \<open>renderNode\<close> sets to the rendered children (strings) before it calls a
  resolver; no resolver reads the \<open>children\<close> of an input node, so input nodes carry
  \<open>None\<close> there.
\<close>

datatype node =
  Node (node_type: string)
       (node_attrs: "attr_bag option")
       (node_content: "node list option")
       (node_text: "string option")
       (node_marks: "mark list option")
       (node_children: "string list option")

text \<open>What \<open>render\<close> is called with: nothing (\<open>null\<close> or \<open>undefined\<close>), one node, or an array.\<close>

datatype render_input = Missing | Single node | Sequence "node list"

text \<open>The console: the diagnostics a call emits, in order.\<close>

datatype diagnostic = ConsoleError "string list" | ConsoleWarn "string list"

section \<open>Serialisation helpers\<close>

text \<open>\<open>node.attrs?.key\<close>: \<open>undefined\<close> when the bag or the key is absent.\<close>

definition get_attr :: "attr_bag option \<Rightarrow> string \<Rightarrow> jsval" where
  "get_attr bag key =
     (case bag of
        None \<Rightarrow> JUndefined
      | Some a \<Rightarrow> (case map_of a key of None \<Rightarrow> JUndefined | Some v \<Rightarrow> v))"

text \<open>The parameter default \<open>attrs = {}\<close> stands in for an absent bag.\<close>

definition attrsToString :: "attr_bag option \<Rightarrow> string" where
  "attrsToString bag =
     (let a = (case bag of None \<Rightarrow> [] | Some a \<Rightarrow> a)
      in join '' ''
           (map (\<lambda>key. key @ ''='' @ dq @ to_string (get_attr (Some a) key) @ dq) (map fst a)))"

text \<open>\<open>String.prototype.replace\<close> with a global one-character pattern.\<close>

definition replace_all :: "char \<Rightarrow> string \<Rightarrow> string \<Rightarrow> string" where
  "replace_all c r s = concat (map (\<lambda>x. if x = c then r else [x]) s)"

definition escapeHtml :: "string \<Rightarrow> string" where
  "escapeHtml unsafeText =
     replace_all (CHR 0x27) ''&#039;''
       (replace_all (CHR 0x22) ''&quot;''
         (replace_all CHR ''>'' ''&gt;''
           (replace_all CHR ''<'' ''&lt;''
             (replace_all CHR ''&'' ''&amp;'' unsafeText))))"

text \<open>\<open>`${node.children?.join('')}`\<close> and \<open>`${text}`\<close>: an absent value prints as \<open>undefined\<close>.\<close>

definition children_string :: "string list option \<Rightarrow> string" where
  "children_string cs = (case cs of None \<Rightarrow> ''undefined'' | Some ss \<Rightarrow> join [] ss)"

definition text_string :: "string option \<Rightarrow> string" where
  "text_string t = (case t of None \<Rightarrow> ''undefined'' | Some s \<Rightarrow> s)"

section \<open>Resolvers\<close>

definition nodeResolver :: "string \<Rightarrow> node \<Rightarrow> string" where
  "nodeResolver tag nd =
     ''<'' @ tag @ '' '' @ attrsToString (node_attrs nd) @ ''>'' @
     children_string (node_children nd) @ ''</'' @ tag @ ''>''"

definition headingResolver :: "node \<Rightarrow> string" where
  "headingResolver nd =
     ''<h'' @ to_string (get_attr (node_attrs nd) ''level'') @ '' '' @
     attrsToString (node_attrs nd) @ ''>'' @
     children_string (node_children nd) @
     ''</h'' @ to_string (get_attr (node_attrs nd) ''level'') @ ''>''"

definition markResolver :: "string \<Rightarrow> node \<Rightarrow> string" where
  "markResolver tag nd =
     ''<'' @ tag @ '' '' @ attrsToString (node_attrs nd) @ ''>'' @
     text_string (node_text nd) @ ''</'' @ tag @ ''>''"

definition documentResolver :: "node \<Rightarrow> string" where
  "documentResolver nd = ''<div>'' @ children_string (node_children nd) @ ''</div>''"

definition linkResolver :: "node \<Rightarrow> string" where
  "linkResolver nd =
     (let targetAttr =
            (if truthy (get_attr (node_attrs nd) ''target'')
             then '' target='' @ dq @ to_string (get_attr (node_attrs nd) ''target'') @ dq
             else []);
          linktype = get_attr (node_attrs nd) ''linktype'';
          href =
            (if linktype = JString ASSET \<or> linktype = JString URL
               then to_string (get_attr (node_attrs nd) ''href'')
             else if linktype = JString EMAIL
               then ''mailto:'' @ to_string (get_attr (node_attrs nd) ''href'')
             else if linktype = JString STORY
               then to_string (get_attr (node_attrs nd) ''href'')
             else [])
      in ''<a '' @ attrsToString (node_attrs nd) @ '' href='' @ dq @ href @ dq @ targetAttr @
         ''>'' @ text_string (node_text nd) @ ''</a>'')"

text \<open>
  The values of the registry are closures; here they are the constructors of a datatype,
  applied by \<open>renderNode\<close>. \<open>TextResolver\<close> is the one that calls back into \<open>render\<close>.
\<close>

datatype resolver =
  DocumentResolver
| HeadingResolver
| NodeResolver string
| TextResolver
| LinkResolver
| MarkResolver string

definition resolvers :: "(string \<times> resolver) list" where
  "resolvers =
     [(DOCUMENT, DocumentResolver),
      (HEADING, HeadingResolver),
      (PARAGRAPH, NodeResolver ''p''),
      (UL_LIST, NodeResolver ''ul''),
      (OL_LIST, NodeResolver ''ol''),
      (LIST_ITEM, NodeResolver ''li''),
      (TEXT, TextResolver),
      (LINK, LinkResolver),
      (ANCHOR, LinkResolver),
      (STYLED, MarkResolver ''span''),
      (BOLD, MarkResolver ''strong''),
      (ITALIC, MarkResolver ''em''),
      (UNDERLINE, MarkResolver ''u''),
      (STRIKE, MarkResolver ''s''),
      (CODE, MarkResolver ''code''),
      (SUPERSCRIPT, MarkResolver ''sup''),
      (SUBSCRIPT, MarkResolver ''sub''),
      (HIGHLIGHT, MarkResolver ''mark'')]"

section \<open>The renderer\<close>

text \<open>
  A call returns its string together with the diagnostics it printed. \<open>None\<close> is a call
  that does not return: the recursion is bounded by \<open>fuel\<close>, the number of nested calls of
  \<open>render\<close>, \<open>renderNode\<close> and \<open>textResolver\<close> the call stack has room for.
\<close>

type_synonym 'a result = "('a \<times> diagnostic list) option"

text \<open>\<open>Array.prototype.map\<close> with a callback that may not return.\<close>

fun array_map :: "('a \<Rightarrow> 'b result) \<Rightarrow> 'a list \<Rightarrow> 'b list result" where
  "array_map f [] = Some ([], [])"
| "array_map f (x # xs) =
     (case f x of
        None \<Rightarrow> None
      | Some (y, d) \<Rightarrow>
          (case array_map f xs of
             None \<Rightarrow> None
           | Some (ys, ds) \<Rightarrow> Some (y # ys, d @ ds)))"

text \<open>\<open>Array.prototype.reduce\<close> with an initial value.\<close>

fun array_reduce :: "('b \<Rightarrow> 'a \<Rightarrow> 'b result) \<Rightarrow> 'a list \<Rightarrow> 'b \<Rightarrow> 'b result" where
  "array_reduce f [] acc = Some (acc, [])"
| "array_reduce f (x # xs) acc =
     (case f acc x of
        None \<Rightarrow> None
      | Some (acc', d) \<Rightarrow>
          (case array_reduce f xs acc' of
             None \<Rightarrow> None
           | Some (r, ds) \<Rightarrow> Some (r, d @ ds)))"

text \<open>The object \<open>{ ...mark, text }\<close> that the fold over the marks renders.\<close>

definition mark_node :: "mark \<Rightarrow> string \<Rightarrow> node" where
  "mark_node m acc = Node (mark_type m) (mark_attrs m) None (Some acc) None None"

text \<open>The object \<open>{ ...node, children }\<close>.\<close>

definition with_children :: "node \<Rightarrow> string list option \<Rightarrow> node" where
  "with_children nd cs =
     Node (node_type nd) (node_attrs nd) (node_content nd) (node_text nd) (node_marks nd) cs"

text \<open>Calling a resolver of the registry; the first argument is the text resolver.\<close>

definition call_resolver :: "(node \<Rightarrow> string result) \<Rightarrow> resolver \<Rightarrow> node \<Rightarrow> string result" where
  "call_resolver text_resolver r nd =
     (case r of
        DocumentResolver \<Rightarrow> Some (documentResolver nd, [])
      | HeadingResolver \<Rightarrow> Some (headingResolver nd, [])
      | NodeResolver tag \<Rightarrow> Some (nodeResolver tag nd, [])
      | TextResolver \<Rightarrow> text_resolver nd
      | LinkResolver \<Rightarrow> Some (linkResolver nd, [])
      | MarkResolver tag \<Rightarrow> Some (markResolver tag nd, []))"

definition no_content_message :: string where
  "no_content_message =
     ''No content to render,'' @ [CHR 0x0A] @
     ''      The render method must receive an Object with a '' @ dq @ ''content'' @ dq @
     '' field that is an array of nodes''"

definition no_resolver_diagnostic :: "string \<Rightarrow> diagnostic" where
  "no_resolver_diagnostic t =
     ConsoleError [''<Storyblok>'', ''No resolver found for node type '' @ t]"

fun render :: "nat \<Rightarrow> render_input \<Rightarrow> string result"
  and renderNode :: "nat \<Rightarrow> node \<Rightarrow> string result"
  and textResolver :: "nat \<Rightarrow> node \<Rightarrow> string result"
where
  "render 0 inp = None"
| "render (Suc fuel) inp =
     (case inp of
        Missing \<Rightarrow> Some ([], [ConsoleWarn [no_content_message]])
      | Sequence nodes \<Rightarrow>
          (case array_map (\<lambda>nd. renderNode fuel nd) nodes of
             None \<Rightarrow> None
           | Some (ss, ds) \<Rightarrow> Some (join [] ss, ds))
      | Single nd \<Rightarrow> renderNode fuel nd)"
| "renderNode 0 nd = None"
| "renderNode (Suc fuel) nd =
     (case map_of resolvers (node_type nd) of
        None \<Rightarrow> Some ([], [no_resolver_diagnostic (node_type nd)])
      | Some resolver \<Rightarrow>
          if node_type nd = ''text''
          then call_resolver (\<lambda>n. textResolver fuel n) resolver nd
          else
            (case (case node_content nd of
                     None \<Rightarrow> Some (None, [])
                   | Some content \<Rightarrow>
                       (case array_map (\<lambda>c. render fuel (Single c)) content of
                          None \<Rightarrow> None
                        | Some (ss, ds) \<Rightarrow> Some (Some ss, ds))) of
               None \<Rightarrow> None
             | Some (children, ds) \<Rightarrow>
                 (case call_resolver (\<lambda>n. textResolver fuel n) resolver
                         (with_children nd children) of
                    None \<Rightarrow> None
                  | Some (s, ds') \<Rightarrow> Some (s, ds @ ds'))))"
| "textResolver 0 nd = None"
| "textResolver (Suc fuel) nd =
     (case node_text nd of
        None \<Rightarrow> Some ([], [])
      | Some t \<Rightarrow>
          (case node_marks nd of
             None \<Rightarrow> Some (escapeHtml t, [])
           | Some marks \<Rightarrow>
               (case render fuel (Single nd) of
                  None \<Rightarrow> None
                | Some (initial, ds) \<Rightarrow>
                    (case array_reduce (\<lambda>text m. render fuel (Single (mark_node m text)))
                            marks initial of
                       None \<Rightarrow> None
                     | Some (s, ds') \<Rightarrow> Some (s, ds @ ds')))))"

section \<open>Termination and results, independent of the fuel\<close>

definition returns :: "render_input \<Rightarrow> string \<Rightarrow> bool" where
  "returns inp s \<longleftrightarrow> (\<exists>fuel ds. render fuel inp = Some (s, ds))"

section \<open>Reference definitions for the properties\<close>

text \<open>
  Escaping as one pass over the characters, each of the five special characters replaced
  once by its entity (the specification's reading of \<open>escapeHtml\<close>).
\<close>

definition spec_escape_char :: "char \<Rightarrow> string" where
  "spec_escape_char c =
     (if c = CHR ''&'' then ''&amp;''
      else if c = CHR ''<'' then ''&lt;''
      else if c = CHR ''>'' then ''&gt;''
      else if c = CHR 0x22 then ''&quot;''
      else if c = CHR 0x27 then ''&#039;''
      else [c])"

text \<open>
  Unescaping, which the source does not have: one pass that reads each of the five
  entities back as its character and copies everything else.
\<close>

function spec_unescapeHtml :: "string \<Rightarrow> string" where
  "spec_unescapeHtml s =
     (if s = [] then []
      else if take 5 s = ''&amp;'' then CHR ''&'' # spec_unescapeHtml (drop 5 s)
      else if take 4 s = ''&lt;'' then CHR ''<'' # spec_unescapeHtml (drop 4 s)
      else if take 4 s = ''&gt;'' then CHR ''>'' # spec_unescapeHtml (drop 4 s)
      else if take 6 s = ''&quot;'' then CHR 0x22 # spec_unescapeHtml (drop 6 s)
      else if take 6 s = ''&#039;'' then CHR 0x27 # spec_unescapeHtml (drop 6 s)
      else hd s # spec_unescapeHtml (tl s))"
  by pat_completeness auto
termination
  by (relation "measure length") auto

declare spec_unescapeHtml.simps [simp del]







text \<open>A node type that has a resolver, and a tree with every node of another type left out
  of every \<open>content\<close> list.\<close>

definition registered :: "node \<Rightarrow> bool" where
  "registered nd \<longleftrightarrow> map_of resolvers (node_type nd) \<noteq> None"

primrec prune :: "node \<Rightarrow> node" where
  "prune (Node t a content tx ms ch) =
     Node t a
       (case map_option (map prune) content of
          None \<Rightarrow> None
        | Some cs \<Rightarrow> Some (filter registered cs))
       tx ms ch"

fun prune_input :: "render_input \<Rightarrow> render_input" where
  "prune_input Missing = Missing"
| "prune_input (Single nd) = Single (prune nd)"
| "prune_input (Sequence nodes) = Sequence (filter registered (map prune nodes))"

text \<open>A tree in which no text node has both a text and a marks array.\<close>

primrec unmarked :: "node \<Rightarrow> bool" where
  "unmarked (Node t a content tx ms ch) =
     ((t \<noteq> ''text'' \<or> tx = None \<or> ms = None) \<and>
      (case map_option (map unmarked) content of
         None \<Rightarrow> True
       | Some bs \<Rightarrow> list_all (\<lambda>b. b) bs))"

text \<open>The conditions on the options of \<open>optimizeImage\<close>, read off the option fields.\<close>

definition positive :: "int option \<Rightarrow> bool" where
  "positive v = (case v of None \<Rightarrow> False | Some n \<Rightarrow> 0 < n)"

fun spec_has_dimensions :: "options_arg \<Rightarrow> bool" where
  "spec_has_dimensions (OptObject opts) = (positive (width opts) \<and> positive (height opts))"
| "spec_has_dimensions _ = False"

definition spec_filter_active :: "image_filters \<Rightarrow> bool" where
  "spec_filter_active f \<longleftrightarrow>
     num_truthy (blur f) \<or> num_truthy (quality f) \<or> num_truthy (brightness f) \<or>
     str_truthy (fill f) \<or> bool_truthy (grayscale f) \<or>
     rotate_by f \<in> {Some 90, Some 180, Some 270} \<or>
     format f \<in> {Some ''webp'', Some ''png'', Some ''jpeg''}"

fun spec_has_filters :: "options_arg \<Rightarrow> bool" where
  "spec_has_filters (OptObject opts) =
     (case filters opts of None \<Rightarrow> False | Some f \<Rightarrow> spec_filter_active f)"
| "spec_has_filters _ = False"

section \<open>Example inputs\<close>

definition bold_mark :: mark where
  "bold_mark = \<lparr>mark_type = ''bold'', mark_attrs = None\<rparr>"


definition email_link_mark :: mark where
  "email_link_mark =
     \<lparr>mark_type = ''link'',
      mark_attrs = Some [(''linktype'', JString ''email''), (''href'', JString ''a@b.com'')]\<rparr>"

definition text_node :: "string \<Rightarrow> mark list option \<Rightarrow> node" where
  "text_node t ms = Node ''text'' None None (Some t) ms None"

definition block_node :: "string \<Rightarrow> node list \<Rightarrow> node" where
  "block_node t content = Node t None (Some content) None None None"

text \<open>\<open>{type: "text", text: "x", marks: [{type: "bold"}]}\<close>\<close>

definition bold_text_example :: node where
  "bold_text_example = text_node ''x'' (Some [bold_mark])"


text \<open>The document of the end-to-end scenario, and the same tree without the mark.\<close>

definition scenario_document :: node where
  "scenario_document =
     block_node ''document''
       [block_node ''paragraph'' [text_node ''Hi <there>'' (Some [bold_mark])]]"

definition plain_document :: node where
  "plain_document =
     block_node ''document'' [block_node ''paragraph'' [text_node ''Hi <there>'' None]]"

text \<open>\<open>{type: "text", text: "go", marks: [{type: "link", attrs: {linktype: "email",
  href: "a@b.com"}}]}\<close>\<close>

definition email_link_example :: node where
  "email_link_example = text_node ''go'' (Some [email_link_mark])"

text \<open>\<open>{type: "text", text: "A & B", marks: []}\<close>\<close>

definition empty_marks_example :: node where
  "empty_marks_example = text_node ''A & B'' (Some [])"

text \<open>\<open>{type: "heading", attrs: {level: 3}, content: [{type: "text", text: "T", marks:
  [{type: "bold"}]}]}\<close>, and the same heading without the mark.\<close>

definition marked_heading_example :: node where
  "marked_heading_example =
     Node ''heading'' (Some [(''level'', JNumber 3)])
       (Some [text_node ''T'' (Some [bold_mark])]) None None None"

definition plain_heading_example :: node where
  "plain_heading_example =
     Node ''heading'' (Some [(''level'', JNumber 3)])
       (Some [text_node ''T'' None]) None None None"

text \<open>A node of a type without resolver, holding a text node that carries a mark, and a
  document that has it between two text nodes of a paragraph.\<close>

definition unknown_example :: node where
  "unknown_example = block_node ''blockquote'' [bold_text_example]"

definition document_with_unknown :: node where
  "document_with_unknown =
     block_node ''document''
       [block_node ''paragraph'' [text_node ''a'' None, unknown_example, text_node ''b'' None]]"

text \<open>\<open>{width: 100, height: 200, filters: {blur: 5}}\<close>\<close>

definition no_filters :: image_filters where
  "no_filters =
     \<lparr>blur = None, brightness = None, fill = None, format = None, grayscale = None,
      quality = None, rotate_by = None\<rparr>"

definition empty_options :: image_options where
  "empty_options =
     \<lparr>width = None, height = None, loading = None, css_class = None, filters = None\<rparr>"

definition sized_blur_options :: options_arg where
  "sized_blur_options =
     OptObject (empty_options\<lparr>width := Some 100, height := Some 200,
       filters := Some (no_filters\<lparr>blur := Some 5\<rparr>)\<rparr>)"

text \<open>\<open>{filters: {blur: 5}}\<close>, and an object with every filter set.\<close>

definition blur_options :: options_arg where
  "blur_options = OptObject (empty_options\<lparr>filters := Some (no_filters\<lparr>blur := Some 5\<rparr>)\<rparr>)"

definition all_filters_options :: options_arg where
  "all_filters_options =
     OptObject (empty_options\<lparr>filters := Some
       \<lparr>blur = Some 5, brightness = Some 10, fill = Some ''transparent'', format = Some ''webp'',
        grayscale = Some True, quality = Some 80, rotate_by = Some 90\<rparr>\<rparr>)"

section \<open>Facts about the registry and the helpers\<close>

lemmas type_defs = DOCUMENT_def HEADING_def PARAGRAPH_def UL_LIST_def OL_LIST_def LIST_ITEM_def
  TEXT_def LINK_def ANCHOR_def STYLED_def BOLD_def ITALIC_def UNDERLINE_def STRIKE_def CODE_def
  SUPERSCRIPT_def SUBSCRIPT_def HIGHLIGHT_def

lemma resolvers_text: "map_of resolvers ''text'' = Some TextResolver"
  by (simp add: resolvers_def type_defs)

lemma resolvers_TextResolver: "map_of resolvers t = Some TextResolver \<Longrightarrow> t = ''text''"
  by (simp add: resolvers_def type_defs split: if_splits)

lemma marked_text_diverges:
  assumes "node_type nd = ''text''" and "node_text nd = Some t" and "node_marks nd = Some ms"
  shows "render fuel (Single nd) = None"
proof (induction fuel rule: less_induct)
  case (less fuel)
  show ?case
  proof (cases fuel)
    case 0
    then show ?thesis by simp
  next
    case (Suc f1)
    show ?thesis
    proof (cases f1)
      case 0
      with Suc show ?thesis by simp
    next
      case (Suc f2)
      show ?thesis
      proof (cases f2)
        case 0
        with \<open>fuel = Suc f1\<close> \<open>f1 = Suc f2\<close> assms show ?thesis
          by (simp add: resolvers_text call_resolver_def)
      next
        case (Suc f3)
        have "render f3 (Single nd) = None"
          using less.IH [of f3] \<open>fuel = Suc f1\<close> \<open>f1 = Suc f2\<close> Suc by simp
        with \<open>fuel = Suc f1\<close> \<open>f1 = Suc f2\<close> Suc assms show ?thesis
          by (simp add: resolvers_text call_resolver_def)
      qed
    qed
  qed
qed

lemma array_map_mono:
  assumes "\<And>x r. x \<in> set xs \<Longrightarrow> f x = Some r \<Longrightarrow> g x = Some r"
  shows "array_map f xs = Some r \<Longrightarrow> array_map g xs = Some r"
  using assms
proof (induction xs arbitrary: r)
  case Nil
  then show ?case by simp
next
  case (Cons x xs)
  then show ?case
    by (auto split: option.splits prod.splits)
qed

lemma array_reduce_mono:
  assumes "\<And>acc x r. f acc x = Some r \<Longrightarrow> g acc x = Some r"
  shows "array_reduce f xs acc = Some r \<Longrightarrow> array_reduce g xs acc = Some r"
  using assms
proof (induction xs arbitrary: acc r)
  case Nil
  then show ?case by simp
next
  case (Cons x xs)
  then show ?case
    by (fastforce split: option.splits prod.splits)
qed

lemma call_resolver_mono:
  assumes "\<And>r. f nd = Some r \<Longrightarrow> g nd = Some r"
  shows "call_resolver f res nd = Some r \<Longrightarrow> call_resolver g res nd = Some r"
  using assms by (cases res) (auto simp: call_resolver_def)

text \<open>More fuel never changes a result.\<close>

lemma fuel_step:
  "(\<forall>x r. render fuel x = Some r \<longrightarrow> render (Suc fuel) x = Some r) \<and>
   (\<forall>nd r. renderNode fuel nd = Some r \<longrightarrow> renderNode (Suc fuel) nd = Some r) \<and>
   (\<forall>nd r. textResolver fuel nd = Some r \<longrightarrow> textResolver (Suc fuel) nd = Some r)"
proof (induction fuel)
  case 0
  then show ?case by simp
next
  case (Suc fuel)
  have R: "\<And>x r. render fuel x = Some r \<Longrightarrow> render (Suc fuel) x = Some r"
    and N: "\<And>nd r. renderNode fuel nd = Some r \<Longrightarrow> renderNode (Suc fuel) nd = Some r"
    and T: "\<And>nd r. textResolver fuel nd = Some r \<Longrightarrow> textResolver (Suc fuel) nd = Some r"
    using Suc.IH by blast+
  have 1: "render (Suc (Suc fuel)) x = Some r" if "render (Suc fuel) x = Some r" for x r
  proof (cases x)
    case Missing
    with that show ?thesis by simp
  next
    case (Single nd)
    with that N show ?thesis by (simp del: renderNode.simps)
  next
    case (Sequence nodes)
    with that obtain ss ds where a: "array_map (\<lambda>nd. renderNode fuel nd) nodes = Some (ss, ds)"
      and r: "r = (join [] ss, ds)"
      by (auto split: option.splits)
    have "array_map (\<lambda>nd. renderNode (Suc fuel) nd) nodes = Some (ss, ds)"
      using a N by (rule array_map_mono [rotated])
    with r Sequence show ?thesis by (simp del: renderNode.simps)
  qed
  have 2: "renderNode (Suc (Suc fuel)) nd = Some r" if h: "renderNode (Suc fuel) nd = Some r" for nd r
  proof (cases "map_of resolvers (node_type nd)")
    case None
    with h show ?thesis by simp
  next
    case (Some res)
    show ?thesis
    proof (cases "node_type nd = ''text''")
      case True
      with h Some have "call_resolver (\<lambda>n. textResolver fuel n) res nd = Some r" by simp
      then have "call_resolver (\<lambda>n. textResolver (Suc fuel) n) res nd = Some r"
        using T by (rule call_resolver_mono [rotated])
      with True Some show ?thesis by (simp del: textResolver.simps)
    next
      case False
      show ?thesis
      proof (cases "node_content nd")
        case None
        with h Some False obtain s ds' where
          c: "call_resolver (\<lambda>n. textResolver fuel n) res (with_children nd None) = Some (s, ds')"
          and r: "r = (s, ds')"
          by (auto split: option.splits)
        have "call_resolver (\<lambda>n. textResolver (Suc fuel) n) res (with_children nd None) = Some (s, ds')"
          using c T by (rule call_resolver_mono [rotated])
        with None Some False r show ?thesis by (simp del: textResolver.simps)
      next
        case (Some content)
        with h \<open>map_of resolvers (node_type nd) = Some res\<close> False obtain ss ds s ds' where
          a: "array_map (\<lambda>c. render fuel (Single c)) content = Some (ss, ds)"
          and c: "call_resolver (\<lambda>n. textResolver fuel n) res (with_children nd (Some ss)) = Some (s, ds')"
          and r: "r = (s, ds @ ds')"
          by (auto split: option.splits)
        have a': "array_map (\<lambda>c. render (Suc fuel) (Single c)) content = Some (ss, ds)"
          using a R by (rule array_map_mono [rotated])
        have "call_resolver (\<lambda>n. textResolver (Suc fuel) n) res (with_children nd (Some ss)) = Some (s, ds')"
          using c T by (rule call_resolver_mono [rotated])
        with a' Some \<open>map_of resolvers (node_type nd) = Some res\<close> False r show ?thesis
          by (simp del: textResolver.simps render.simps)
      qed
    qed
  qed
  have 3: "textResolver (Suc (Suc fuel)) nd = Some r" if h: "textResolver (Suc fuel) nd = Some r" for nd r
  proof (cases "node_text nd")
    case None
    with h show ?thesis by simp
  next
    case (Some t)
    show ?thesis
    proof (cases "node_marks nd")
      case None
      with h Some show ?thesis by simp
    next
      case (Some marks)
      with h \<open>node_text nd = Some t\<close> obtain initial ds s ds' where
        i: "render fuel (Single nd) = Some (initial, ds)"
        and f: "array_reduce (\<lambda>text m. render fuel (Single (mark_node m text))) marks initial = Some (s, ds')"
        and r: "r = (s, ds @ ds')"
        by (auto split: option.splits)
      have i': "render (Suc fuel) (Single nd) = Some (initial, ds)" using i R by blast
      have "array_reduce (\<lambda>text m. render (Suc fuel) (Single (mark_node m text))) marks initial = Some (s, ds')"
        using f R by (rule array_reduce_mono [rotated])
      with i' Some \<open>node_text nd = Some t\<close> r show ?thesis by (simp del: render.simps)
    qed
  qed
  from 1 2 3 show ?case by blast
qed

lemma render_fuel_mono:
  assumes "render fuel inp = Some r"
  shows "render (fuel + k) inp = Some r"
proof (induction k)
  case 0
  with assms show ?case by simp
next
  case (Suc k)
  have "render (Suc (fuel + k)) inp = Some r"
    using fuel_step [of "fuel + k"] Suc.IH by blast
  then show ?case by (simp del: render.simps)
qed

text \<open>So what a call returns does not depend on the room it is given.\<close>

lemma returns_unique:
  assumes "returns inp s" and "returns inp s'"
  shows "s = s'"
proof -
  from assms obtain f ds f' ds' where
    a: "render f inp = Some (s, ds)" and b: "render f' inp = Some (s', ds')"
    by (auto simp: returns_def)
  have "render (f + f') inp = Some (s, ds)" using a by (rule render_fuel_mono)
  moreover have "render (f' + f) inp = Some (s', ds')" using b by (rule render_fuel_mono)
  ultimately show ?thesis by (simp add: add.commute)
qed

section \<open>Escaping\<close>

lemma join_empty: "join [] ss = concat ss"
  by (induction "[] :: string" ss rule: join.induct) simp_all

lemma replace_all_Nil: "replace_all c r [] = []"
  by (simp add: replace_all_def)

lemma replace_all_Cons:
  "replace_all c r (x # s) = (if x = c then r else [x]) @ replace_all c r s"
  by (simp add: replace_all_def)

lemma replace_all_append:
  "replace_all c r (a @ b) = replace_all c r a @ replace_all c r b"
  by (simp add: replace_all_def)

lemma escapeHtml_Nil: "escapeHtml [] = []"
  by (simp add: escapeHtml_def replace_all_Nil)

lemma escapeHtml_Cons: "escapeHtml (c # s) = spec_escape_char c @ escapeHtml s"
  by (simp add: escapeHtml_def spec_escape_char_def replace_all_Cons replace_all_append
      replace_all_Nil)

lemma escapeHtml_single_pass: "escapeHtml s = concat (map spec_escape_char s)"
  by (induction s) (simp_all add: escapeHtml_Nil escapeHtml_Cons)

lemma unescape_escape_char:
  "spec_unescapeHtml (spec_escape_char c @ rest) = c # spec_unescapeHtml rest"
  by (subst spec_unescapeHtml.simps) (simp add: spec_escape_char_def)

lemma unescape_escapeHtml: "spec_unescapeHtml (escapeHtml s) = s"
proof (induction s)
  case Nil
  show ?case by (subst spec_unescapeHtml.simps) (simp add: escapeHtml_Nil)
next
  case (Cons c s)
  then show ?case by (simp add: escapeHtml_Cons unescape_escape_char)
qed

section \<open>Text nodes without marks\<close>

text \<open>
  A text node whose \<open>marks\<close> property is absent renders, with room for three nested calls
  or more, to exactly the escaped form of its text and prints nothing; \<open>escapeHtml\<close>
  replaces each occurrence of the five special characters once, in one pass, and
  unescaping the result gives the text back.
\<close>

theorem plain_text_escaped:
  assumes "node_type nd = TEXT" and "node_text nd = Some t" and "node_marks nd = None"
  shows "render (Suc (Suc (Suc fuel))) (Single nd) = Some (escapeHtml t, []) \<and>
         escapeHtml t = concat (map spec_escape_char t) \<and>
         spec_unescapeHtml (escapeHtml t) = t"
proof -
  have "node_type nd = ''text''" using assms(1) by (simp add: TEXT_def)
  then have "render (Suc (Suc (Suc fuel))) (Single nd) = Some (escapeHtml t, [])"
    using assms(2,3) by (simp add: resolvers_text call_resolver_def)
  then show ?thesis
    using escapeHtml_single_pass unescape_escapeHtml by simp
qed

theorem plain_text_escaped_witness:
  "node_type (text_node ''A & B'' None) = TEXT \<and>
   node_text (text_node ''A & B'' None) = Some ''A & B'' \<and>
   node_marks (text_node ''A & B'' None) = None \<and>
   render 3 (Single (text_node ''A & B'' None)) = Some (''A &amp; B'', []) \<and>
   spec_unescapeHtml ''A &amp; B'' = ''A & B''"
proof -
  have e: "escapeHtml ''A & B'' = ''A &amp; B''"
    by (simp add: escapeHtml_def replace_all_def)
  have h1: "node_type (text_node ''A & B'' None) = TEXT"
    and h2: "node_text (text_node ''A & B'' None) = Some ''A & B''"
    and h3: "node_marks (text_node ''A & B'' None) = None"
    by (simp_all add: text_node_def TEXT_def)
  have "render (Suc (Suc (Suc 0))) (Single (text_node ''A & B'' None)) = Some (''A &amp; B'', []) \<and>
        spec_unescapeHtml ''A &amp; B'' = ''A & B''"
    using plain_text_escaped [OF h1 h2 h3, of 0] unfolding e by blast
  then show ?thesis
    using h1 h2 h3 unfolding numeral_3_eq_3 by blast
qed

text \<open>
  Claim C4. The claim fails on the code: the text node
  \<open>{type: "text", text: "A & B", marks: []}\<close> has no marks, but its empty array is truthy,
  so \<open>textResolver\<close> takes the fold branch, starts from \<open>render(node)\<close> and does not
  return. With the \<open>marks\<close> property absent the node renders to the escaped text, each
  special character replaced once, and unescaping gives the text back.
\<close>

theorem empty_marks_never_returns:
  "render fuel (Single empty_marks_example) = None \<and>
   render (Suc (Suc (Suc fuel))) (Single (text_node t None)) = Some (escapeHtml t, []) \<and>
   escapeHtml t = concat (map spec_escape_char t) \<and>
   spec_unescapeHtml (escapeHtml t) = t"
proof -
  have 1: "render fuel (Single empty_marks_example) = None"
    by (rule marked_text_diverges [where t = "''A & B''" and ms = "[]"])
       (simp_all add: empty_marks_example_def text_node_def)
  have 2: "render (Suc (Suc (Suc fuel))) (Single (text_node t None)) = Some (escapeHtml t, []) \<and>
      escapeHtml t = concat (map spec_escape_char t) \<and> spec_unescapeHtml (escapeHtml t) = t"
    by (rule plain_text_escaped) (simp_all add: text_node_def TEXT_def)
  from 1 2 show ?thesis by blast
qed

section \<open>Trees without marked text\<close>

text \<open>
  On every tree in which no text node has both a text and a marks array, \<open>render\<close>
  returns, given enough room.
\<close>

lemma renderNode_fuel_mono:
  assumes "renderNode fuel nd = Some r"
  shows "renderNode (fuel + k) nd = Some r"
proof (induction k)
  case 0
  with assms show ?case by simp
next
  case (Suc k)
  have "renderNode (Suc (fuel + k)) nd = Some r"
    using fuel_step [of "fuel + k"] Suc.IH by blast
  then show ?case by (simp del: renderNode.simps)
qed

lemma array_map_total:
  assumes "\<forall>x \<in> set xs. \<exists>r. f x = Some r"
  shows "\<exists>r. array_map f xs = Some r"
  using assms by (induction xs) auto

lemma uniform_fuel:
  assumes "\<forall>c \<in> set cs. \<exists>fuel r. renderNode fuel c = Some r"
  shows "\<exists>fuel. \<forall>c \<in> set cs. \<exists>r. renderNode fuel c = Some r"
  using assms
proof (induction cs)
  case Nil
  show ?case by simp
next
  case (Cons c cs)
  then obtain f1 where 1: "\<forall>c \<in> set cs. \<exists>r. renderNode f1 c = Some r" by auto
  from Cons.prems obtain f2 r where 2: "renderNode f2 c = Some r" by auto
  have "\<exists>r. renderNode (f1 + f2) x = Some r" if "x \<in> set (c # cs)" for x
  proof (cases "x = c")
    case True
    with renderNode_fuel_mono [OF 2, of f1] show ?thesis by (simp add: add.commute)
  next
    case False
    with that 1 obtain r' where "renderNode f1 x = Some r'" by auto
    then show ?thesis using renderNode_fuel_mono by blast
  qed
  then show ?case by blast
qed

lemma call_resolver_returns:
  assumes "res \<noteq> TextResolver"
  shows "\<exists>s. call_resolver f res nd = Some (s, [])"
  using assms by (cases res) (simp_all add: call_resolver_def)

lemma unmarked_renderNode_returns:
  "unmarked nd \<Longrightarrow> \<exists>fuel r. renderNode fuel nd = Some r"
proof (induction nd)
  case (Node t a content tx ms ch)
  show ?case
  proof (cases "map_of resolvers t")
    case None
    then have "renderNode (Suc 0) (Node t a content tx ms ch) =
        Some ([], [no_resolver_diagnostic t])" by simp
    then show ?thesis by blast
  next
    case (Some res)
    show ?thesis
    proof (cases "t = ''text''")
      case True
      with Some have res: "res = TextResolver" by (simp add: resolvers_text)
      from Node.prems True have "tx = None \<or> ms = None" by simp
      then have "\<exists>r. textResolver (Suc 0) (Node t a content tx ms ch) = Some r"
        by (cases tx; cases ms) auto
      with Some True res have "\<exists>r. renderNode (Suc (Suc 0)) (Node t a content tx ms ch) = Some r"
        by (simp add: call_resolver_def del: textResolver.simps)
      then show ?thesis by blast
    next
      case False
      have pure: "res \<noteq> TextResolver" using Some False resolvers_TextResolver by blast
      show ?thesis
      proof (cases content)
        case None
        from call_resolver_returns [OF pure] obtain s where
          "call_resolver (\<lambda>n. textResolver 0 n) res
             (with_children (Node t a content tx ms ch) None) = Some (s, [])"
          by blast
        with None Some False have "renderNode (Suc 0) (Node t a content tx ms ch) = Some (s, [])"
          by (simp del: textResolver.simps)
        then show ?thesis by blast
      next
        case (Some cs)
        have "\<forall>c \<in> set cs. \<exists>fuel r. renderNode fuel c = Some r"
        proof
          fix c
          assume c: "c \<in> set cs"
          with Node.prems Some have "unmarked c" by (simp add: list_all_iff)
          with c Some show "\<exists>fuel r. renderNode fuel c = Some r"
            by (intro Node.IH [of cs c]) simp_all
        qed
        from uniform_fuel [OF this] obtain F where
          "\<forall>c \<in> set cs. \<exists>r. renderNode F c = Some r" by blast
        then have "\<forall>c \<in> set cs. \<exists>r. render (Suc F) (Single c) = Some r" by simp
        from array_map_total [OF this] obtain ss ds where
          a: "array_map (\<lambda>c. render (Suc F) (Single c)) cs = Some (ss, ds)" by fastforce
        from call_resolver_returns [OF pure] obtain s where
          "call_resolver (\<lambda>n. textResolver (Suc F) n) res
             (with_children (Node t a content tx ms ch) (Some ss)) = Some (s, [])"
          by blast
        with a Some \<open>map_of resolvers t = Some res\<close> False
        have "renderNode (Suc (Suc F)) (Node t a content tx ms ch) = Some (s, ds)"
          by (simp del: textResolver.simps render.simps)
        then show ?thesis by blast
      qed
    qed
  qed
qed

lemma unmarked_render_returns:
  assumes "unmarked nd"
  shows "\<exists>s. returns (Single nd) s"
proof -
  from unmarked_renderNode_returns [OF assms] obtain fuel s ds where
    "renderNode fuel nd = Some (s, ds)" by fastforce
  then have "render (Suc fuel) (Single nd) = Some (s, ds)" by simp
  then show ?thesis unfolding returns_def by blast
qed

lemma unmarked_sequence_returns:
  assumes "\<forall>nd \<in> set nodes. unmarked nd"
  shows "\<exists>s. returns (Sequence nodes) s"
proof -
  have "\<forall>c \<in> set nodes. \<exists>fuel r. renderNode fuel c = Some r"
    using assms unmarked_renderNode_returns by blast
  from uniform_fuel [OF this] obtain F where
    "\<forall>c \<in> set nodes. \<exists>r. renderNode F c = Some r" by blast
  from array_map_total [OF this] obtain ss ds where
    "array_map (\<lambda>nd. renderNode F nd) nodes = Some (ss, ds)" by fastforce
  then have "render (Suc F) (Sequence nodes) = Some (join [] ss, ds)"
    by (simp del: renderNode.simps)
  then show ?thesis unfolding returns_def by blast
qed

section \<open>Text nodes with marks\<close>

text \<open>
  Claim C1. The claim fails on the code: for the text node
  \<open>{type: "text", text: "x", marks: [{type: "bold"}]}\<close> the call of \<open>render\<close> does not
  return, however deep the call stack may grow. \<open>textResolver\<close> starts its fold from
  \<open>render(node)\<close>, the node that still carries its marks, which calls \<open>textResolver\<close>
  on the same node again.
\<close>

theorem marked_text_never_returns:
  "render fuel (Single bold_text_example) = None"
  by (rule marked_text_diverges [where t = "''x''" and ms = "[bold_mark]"])
     (simp_all add: bold_text_example_def text_node_def)








text \<open>The fold of the next theorem is the one \<open>textResolver\<close> runs on a node that has a
  text and a marks array, seeded with what \<open>render\<close> returns for the node itself.\<close>

lemma textResolver_runs_fold:
  assumes "node_text nd = Some t" and "node_marks nd = Some ms"
  shows "textResolver (Suc fuel) nd =
           (case render fuel (Single nd) of
              None \<Rightarrow> None
            | Some (initial, ds) \<Rightarrow>
                (case array_reduce (\<lambda>text m. render fuel (Single (mark_node m text)))
                        ms initial of
                   None \<Rightarrow> None
                 | Some (s, ds') \<Rightarrow> Some (s, ds @ ds')))"
  using assms by (simp del: render.simps)




section \<open>The end-to-end scenario\<close>

lemma not_returns_block:
  assumes "map_of resolvers (node_type nd) = Some res" and "node_type nd \<noteq> ''text''"
    and "node_content nd = Some [c]" and "\<And>fuel. render fuel (Single c) = None"
  shows "render fuel (Single nd) = None"
proof (cases fuel)
  case 0
  then show ?thesis by simp
next
  case (Suc f1)
  show ?thesis
  proof (cases f1)
    case 0
    with Suc show ?thesis by simp
  next
    case (Suc f2)
    with \<open>fuel = Suc f1\<close> assms show ?thesis
      by (simp del: textResolver.simps)
  qed
qed

lemma resolvers_document: "map_of resolvers ''document'' = Some DocumentResolver"
  by (simp add: resolvers_def DOCUMENT_def)

lemma resolvers_paragraph: "map_of resolvers ''paragraph'' = Some (NodeResolver ''p'')"
  by (simp add: resolvers_def DOCUMENT_def HEADING_def PARAGRAPH_def)

lemma scenario_document_diverges: "render fuel (Single scenario_document) = None"
proof -
  have t: "render f (Single (text_node ''Hi <there>'' (Some [bold_mark]))) = None" for f
    by (rule marked_text_diverges [where t = "''Hi <there>''" and ms = "[bold_mark]"])
       (simp_all add: text_node_def)
  have p: "render f (Single (block_node ''paragraph'' [text_node ''Hi <there>'' (Some [bold_mark])])) = None" for f
    by (rule not_returns_block [where res = "NodeResolver ''p''", OF _ _ _ t])
       (simp_all add: block_node_def resolvers_paragraph)
  show ?thesis
    unfolding scenario_document_def
    by (rule not_returns_block [where res = DocumentResolver, OF _ _ _ p])
       (simp_all add: block_node_def resolvers_document)
qed

lemma resolvers_bold: "map_of resolvers ''bold'' = Some (MarkResolver ''strong'')"
  by (simp add: resolvers_def type_defs)

text \<open>
  Claim C3, as amended. The scenario's tree with the mark of its text node left out
  renders to exactly \<open><div><p >Hi &lt;there&gt;</p></div>\<close>: the paragraph keeps the space
  after its tag name in front of an empty attribute string, the document element is a bare
  \<open><div>\<close>. The fold step for the bold mark wraps the escaped text as
  \<open><strong >Hi &lt;there&gt;</strong>\<close>, and the paragraph and document resolvers wrap that
  string to \<open><div><p ><strong >Hi &lt;there&gt;</strong></p></div>\<close>.
\<close>

theorem plain_document_renders:
  "render (Suc (Suc (Suc (Suc (Suc (Suc (Suc fuel))))))) (Single plain_document) =
     Some (''<div><p >Hi &lt;there&gt;</p></div>'', []) \<and>
   array_reduce (\<lambda>text m. render (Suc (Suc fuel)) (Single (mark_node m text))) [bold_mark]
     (escapeHtml ''Hi <there>'') = Some (''<strong >Hi &lt;there&gt;</strong>'', []) \<and>
   documentResolver (with_children (block_node ''document'' [])
     (Some [nodeResolver ''p'' (with_children (block_node ''paragraph'' [])
        (Some [''<strong >Hi &lt;there&gt;</strong>'']))])) =
     ''<div><p ><strong >Hi &lt;there&gt;</strong></p></div>''"
proof -
  have e: "escapeHtml ''Hi <there>'' = ''Hi &lt;there&gt;''"
    by (simp add: escapeHtml_def replace_all_def)
  have 1: "render (Suc (Suc (Suc (Suc (Suc (Suc (Suc fuel))))))) (Single plain_document) =
     Some (''<div><p >Hi &lt;there&gt;</p></div>'', [])"
    by (simp add: plain_document_def block_node_def text_node_def resolvers_document
        resolvers_paragraph resolvers_text call_resolver_def with_children_def e
        documentResolver_def nodeResolver_def children_string_def attrsToString_def)
  have 2: "array_reduce (\<lambda>text m. render (Suc (Suc fuel)) (Single (mark_node m text))) [bold_mark]
     (escapeHtml ''Hi <there>'') = Some (''<strong >Hi &lt;there&gt;</strong>'', [])"
    by (simp add: e bold_mark_def mark_node_def resolvers_bold call_resolver_def
        with_children_def markResolver_def attrsToString_def text_string_def)
  have 3: "documentResolver (with_children (block_node ''document'' [])
     (Some [nodeResolver ''p'' (with_children (block_node ''paragraph'' [])
        (Some [''<strong >Hi &lt;there&gt;</strong>'']))])) =
     ''<div><p ><strong >Hi &lt;there&gt;</strong></p></div>''"
    by (simp add: block_node_def with_children_def documentResolver_def nodeResolver_def
        children_string_def attrsToString_def)
  from 1 2 3 show ?thesis by blast
qed

text \<open>
  The claim as stated fails: on the scenario's tree, whose text node carries the bold mark,
  \<open>render\<close> returns no string at all; and on the tree without the mark the document
  element, which has no attrs, is not written with a space after its tag name.
\<close>

theorem scenario_document_counterexample:
  "\<not> returns (Single scenario_document)
       ''<div ><p ><strong >Hi &lt;there&gt;</strong></p></div>'' \<and>
   render 7 (Single plain_document) \<noteq> Some (''<div ><p >Hi &lt;there&gt;</p></div>'', [])"
proof -
  have 1: "\<not> returns (Single scenario_document)
       ''<div ><p ><strong >Hi &lt;there&gt;</strong></p></div>''"
    by (simp add: returns_def scenario_document_diverges)
  have e: "escapeHtml ''Hi <there>'' = ''Hi &lt;there&gt;''"
    by (simp add: escapeHtml_def replace_all_def)
  have n: "(7::nat) = Suc (Suc (Suc (Suc (Suc (Suc (Suc 0))))))" by simp
  have "render 7 (Single plain_document) = Some (''<div><p >Hi &lt;there&gt;</p></div>'', [])"
    unfolding n
    by (simp add: plain_document_def block_node_def text_node_def resolvers_document
        resolvers_paragraph resolvers_text call_resolver_def with_children_def e
        documentResolver_def nodeResolver_def children_string_def attrsToString_def)
  then have 2: "render 7 (Single plain_document) \<noteq>
      Some (''<div ><p >Hi &lt;there&gt;</p></div>'', [])"
    by simp
  from 1 2 show ?thesis by blast
qed

section \<open>Missing input\<close>

text \<open>
  Claim C6. With room for one call or more, \<open>render\<close> of a missing input returns the
  empty string and prints one warning; being a returned value, it is no exception.
\<close>

theorem missing_input_renders_empty:
  "render (Suc fuel) Missing = Some ([], [ConsoleWarn [no_content_message]])"
  by simp

section \<open>Headings\<close>

lemma string_of_digit:
  assumes "0 \<le> L" and "L < 10"
  shows "number_to_string L = [digit_char (nat L)]"
  using assms by (simp add: number_to_string_def)

lemma resolvers_heading: "map_of resolvers ''heading'' = Some HeadingResolver"
  by (simp add: resolvers_def type_defs)

text \<open>
  A heading node whose \<open>attrs.level\<close> is a number \<open>L\<close> from 1 to 6, and whose children
  render, renders to an element that opens with \<open><hL\<close>, a space and the attribute string,
  and closes with \<open></hL>\<close>, the same digit in both tags. The body is the concatenation of
  the rendered children (the word \<open>undefined\<close> when the node has no \<open>content\<close>).
\<close>

theorem heading_tags_match:
  assumes "node_type nd = HEADING"
    and "get_attr (node_attrs nd) ''level'' = JNumber L" and "1 \<le> L" and "L \<le> 6"
    and "array_map (\<lambda>c. render fuel (Single c))
           (case node_content nd of None \<Rightarrow> [] | Some content \<Rightarrow> content) = Some (ss, ds)"
  shows "render (Suc (Suc fuel)) (Single nd) =
           Some (''<h'' @ [digit_char (nat L)] @ '' '' @ attrsToString (node_attrs nd) @ ''>'' @
                 (case node_content nd of None \<Rightarrow> ''undefined'' | Some content \<Rightarrow> concat ss) @
                 ''</h'' @ [digit_char (nat L)] @ ''>'', ds)"
proof -
  have t: "node_type nd = ''heading''" using assms(1) by (simp add: HEADING_def)
  have l: "to_string (get_attr (node_attrs nd) ''level'') = [digit_char (nat L)]"
    using assms(2,3,4) by (simp add: string_of_digit)
  show ?thesis
  proof (cases "node_content nd")
    case None
    with assms(5) have "ds = []" by simp
    with None t l show ?thesis
      by (simp add: resolvers_heading call_resolver_def headingResolver_def with_children_def
          children_string_def)
  next
    case (Some content)
    with assms(5) have "array_map (\<lambda>c. render fuel (Single c)) content = Some (ss, ds)" by simp
    with Some t l show ?thesis
      by (simp add: resolvers_heading call_resolver_def headingResolver_def with_children_def
          children_string_def join_empty)
  qed
qed

theorem heading_tags_match_witness:
  "render 5 (Single (Node ''heading'' (Some [(''level'', JNumber 3)])
       (Some [text_node ''T'' None]) None None None)) =
     Some (''<h3 level='' @ dq @ ''3'' @ dq @ ''>T</h3>'', [])"
proof -
  let ?h = "Node ''heading'' (Some [(''level'', JNumber 3)]) (Some [text_node ''T'' None]) None None None"
  have a: "node_type ?h = HEADING" by (simp add: HEADING_def)
  have b: "get_attr (node_attrs ?h) ''level'' = JNumber 3" by (simp add: get_attr_def)
  have c: "array_map (\<lambda>c. render (Suc (Suc (Suc 0))) (Single c))
           (case node_content ?h of None \<Rightarrow> [] | Some content \<Rightarrow> content) = Some ([''T''], [])"
    by (simp add: text_node_def resolvers_text call_resolver_def escapeHtml_def replace_all_def)
  have n: "(5::nat) = Suc (Suc (Suc (Suc (Suc 0))))" by simp
  have "render (Suc (Suc (Suc (Suc (Suc 0))))) (Single ?h) =
     Some (''<h'' @ [digit_char (nat 3)] @ '' '' @ attrsToString (node_attrs ?h) @ ''>'' @
                 (case node_content ?h of None \<Rightarrow> ''undefined'' | Some content \<Rightarrow> concat [''T'']) @
                 ''</h'' @ [digit_char (nat 3)] @ ''>'', [])"
    by (rule heading_tags_match [OF a b _ _ c]) simp_all
  moreover have "''<h'' @ [digit_char (nat 3)] @ '' '' @ attrsToString (node_attrs ?h) @ ''>'' @
                 (case node_content ?h of None \<Rightarrow> ''undefined'' | Some content \<Rightarrow> concat [''T'']) @
                 ''</h'' @ [digit_char (nat 3)] @ ''>'' = ''<h3 level='' @ dq @ ''3'' @ dq @ ''>T</h3>''"
    by (simp add: digit_char_def attrsToString_def get_attr_def number_to_string_def dq_def)
  ultimately show ?thesis unfolding n by simp
qed

text \<open>
  Claim C7. The claim fails on the code: for the heading of level 3 whose content is a text
  node that carries a mark, \<open>render\<close> does not return, so there is no output with matching
  tags. The heading resolver itself, given the rendered children, writes \<open><h3 ...>\<close> and
  \<open></h3>\<close>, and the same heading without the mark renders to that element.
\<close>

theorem marked_heading_never_returns:
  "render fuel (Single marked_heading_example) = None \<and>
   headingResolver (with_children marked_heading_example (Some [''<strong >T</strong>''])) =
     ''<h3 level='' @ dq @ ''3'' @ dq @ ''><strong >T</strong></h3>'' \<and>
   render (Suc (Suc (Suc (Suc (Suc fuel))))) (Single plain_heading_example) =
     Some (''<h3 level='' @ dq @ ''3'' @ dq @ ''>T</h3>'', [])"
proof -
  have t: "render f (Single (text_node ''T'' (Some [bold_mark]))) = None" for f
    by (rule marked_text_diverges [where t = "''T''" and ms = "[bold_mark]"])
       (simp_all add: text_node_def)
  have 1: "render fuel (Single marked_heading_example) = None"
    unfolding marked_heading_example_def
    by (rule not_returns_block [where res = HeadingResolver, OF _ _ _ t])
       (simp_all add: resolvers_heading)
  have 2: "headingResolver (with_children marked_heading_example (Some [''<strong >T</strong>''])) =
     ''<h3 level='' @ dq @ ''3'' @ dq @ ''><strong >T</strong></h3>''"
    by (simp add: headingResolver_def with_children_def marked_heading_example_def get_attr_def
        attrsToString_def children_string_def number_to_string_def digit_char_def dq_def)
  have e: "escapeHtml ''T'' = ''T''"
    by (simp add: escapeHtml_def replace_all_def)
  have 3: "render (Suc (Suc (Suc (Suc (Suc fuel))))) (Single plain_heading_example) =
     Some (''<h3 level='' @ dq @ ''3'' @ dq @ ''>T</h3>'', [])"
    by (simp add: plain_heading_example_def text_node_def resolvers_heading resolvers_text
        call_resolver_def with_children_def e headingResolver_def get_attr_def
        attrsToString_def children_string_def number_to_string_def digit_char_def dq_def)
  from 1 2 3 show ?thesis by blast
qed

section \<open>Links\<close>

text \<open>
  Claim C8. The link resolver, called on the object the fold would build for the email
  link mark and the text \<open>go\<close>, gives the anchor with \<open>href="mailto:a@b.com"\<close> and the
  inner text \<open>go\<close>; but \<open>render\<close> of the text node that carries the mark never gets
  there: it does not return.
\<close>

theorem email_link_never_returns:
  "linkResolver (mark_node email_link_mark ''go'') =
     ''<a linktype='' @ dq @ ''email'' @ dq @ '' href='' @ dq @ ''a@b.com'' @ dq @
     '' href='' @ dq @ ''mailto:a@b.com'' @ dq @ ''>go</a>'' \<and>
   render fuel (Single email_link_example) = None"
proof -
  have 1: "linkResolver (mark_node email_link_mark ''go'') =
     ''<a linktype='' @ dq @ ''email'' @ dq @ '' href='' @ dq @ ''a@b.com'' @ dq @
     '' href='' @ dq @ ''mailto:a@b.com'' @ dq @ ''>go</a>''"
    by (simp add: linkResolver_def mark_node_def email_link_mark_def get_attr_def
        attrsToString_def ASSET_def URL_def EMAIL_def STORY_def text_string_def dq_def)
  have 2: "render fuel (Single email_link_example) = None"
    by (rule marked_text_diverges [where t = "''go''" and ms = "[email_link_mark]"])
       (simp_all add: email_link_example_def text_node_def)
  from 1 2 show ?thesis by blast
qed

section \<open>Image URLs\<close>

text \<open>
  Claim C9. With a width, a height and a filter, the dimensions and the filter list are
  written one after the other with no slash between them; without dimensions the filter
  list follows the slash of \<open>/m/\<close>, the filters in their fixed order.
\<close>

theorem sized_filters_missing_slash:
  "src (optimizeImage ''img.jpg'' sized_blur_options) = ''img.jpg/m/100x200filters:blur(5)'' \<and>
   src (optimizeImage ''img.jpg'' blur_options) = ''img.jpg/m/filters:blur(5)'' \<and>
   src (optimizeImage ''img.jpg'' all_filters_options) =
     ''img.jpg/m/filters:blur(5):quality(80):brightness(10):fill(transparent):grayscale():rotate(90):format(webp)''"
  by (simp add: optimizeImage_def sized_blur_options_def blur_options_def all_filters_options_def
      empty_options_def no_filters_def num_truthy_def str_truthy_def bool_truthy_def
      filterParams_def number_to_string_def digit_char_def)

lemma filterParams_empty: "filterParams f = [] \<longleftrightarrow> \<not> spec_filter_active f"
proof -
  have r: "(num_truthy (rotate_by f) \<and> the (rotate_by f) \<in> set [90, 180, 270]) \<longleftrightarrow>
           rotate_by f \<in> {Some 90, Some 180, Some 270}"
    by (cases "rotate_by f") (auto simp: num_truthy_def)
  have m: "(str_truthy (format f) \<and> the (format f) \<in> set [''webp'', ''png'', ''jpeg'']) \<longleftrightarrow>
           format f \<in> {Some ''webp'', Some ''png'', Some ''jpeg''}"
    by (cases "format f") (auto simp: str_truthy_def)
  show ?thesis
    unfolding filterParams_def spec_filter_active_def r [symmetric] m [symmetric]
    by simp
qed

lemma positive_width:
  "0 < (if num_truthy v then the v else 0) \<longleftrightarrow> positive v"
  by (cases v) (auto simp: num_truthy_def positive_def)

text \<open>
  Claim C10. Truthy options that give neither dimensions (width and height not both
  positive) nor any filter give the source followed by \<open>/m/\<close>; falsy options give the
  source unchanged.
\<close>

theorem bare_transform_segment:
  "(options_truthy options \<and> \<not> spec_has_dimensions options \<and> \<not> spec_has_filters options \<longrightarrow>
      src (optimizeImage source options) = source @ ''/m/'') \<and>
   (\<not> options_truthy options \<longrightarrow> src (optimizeImage source options) = source)"
proof (cases options)
  case OptUndefined
  then show ?thesis by (simp add: optimizeImage_def)
next
  case (OptBoolean b)
  then show ?thesis by (simp add: optimizeImage_def)
next
  case (OptObject opts)
  show ?thesis
  proof (cases "filters opts")
    case None
    with OptObject show ?thesis
      by (auto simp: optimizeImage_def Let_def positive_width)
  next
    case (Some f)
    with OptObject show ?thesis
      by (auto simp: optimizeImage_def Let_def positive_width filterParams_empty)
  qed
qed

theorem bare_transform_segment_witness:
  "src (optimizeImage ''a.png'' (OptBoolean True)) = ''a.png/m/'' \<and>
   src (optimizeImage ''a.png'' (OptObject empty_options)) = ''a.png/m/'' \<and>
   src (optimizeImage ''a.png'' (OptObject (empty_options\<lparr>width := Some 100\<rparr>))) = ''a.png/m/'' \<and>
   src (optimizeImage ''a.png'' (OptBoolean False)) = ''a.png'' \<and>
   src (optimizeImage ''a.png'' OptUndefined) = ''a.png''"
proof -
  have 1: "src (optimizeImage ''a.png'' (OptBoolean True)) = ''a.png'' @ ''/m/''"
    by (rule bare_transform_segment [THEN conjunct1, THEN mp]) simp
  have 2: "src (optimizeImage ''a.png'' (OptObject empty_options)) = ''a.png'' @ ''/m/''"
    by (rule bare_transform_segment [THEN conjunct1, THEN mp])
       (simp add: empty_options_def positive_def)
  have 3: "src (optimizeImage ''a.png'' (OptObject (empty_options\<lparr>width := Some 100\<rparr>))) =
      ''a.png'' @ ''/m/''"
    by (rule bare_transform_segment [THEN conjunct1, THEN mp])
       (simp add: empty_options_def positive_def)
  have 4: "src (optimizeImage ''a.png'' (OptBoolean False)) = ''a.png''"
    by (rule bare_transform_segment [THEN conjunct2, THEN mp]) simp
  have 5: "src (optimizeImage ''a.png'' OptUndefined) = ''a.png''"
    by (rule bare_transform_segment [THEN conjunct2, THEN mp]) simp
  from 1 2 3 4 5 show ?thesis by simp
qed

section \<open>Nodes without resolver\<close>

lemma prune_sel [simp]:
  "node_type (prune nd) = node_type nd"
  "node_attrs (prune nd) = node_attrs nd"
  "node_text (prune nd) = node_text nd"
  "node_marks (prune nd) = node_marks nd"
  "node_content (prune nd) =
     (case node_content nd of None \<Rightarrow> None | Some cs \<Rightarrow> Some (filter registered (map prune cs)))"
  by (cases nd; simp split: option.splits)+

lemma registered_prune [simp]: "registered (prune nd) = registered nd"
  by (simp add: registered_def)

lemma with_children_sel [simp]:
  "node_type (with_children nd cs) = node_type nd"
  "node_attrs (with_children nd cs) = node_attrs nd"
  "node_text (with_children nd cs) = node_text nd"
  "node_marks (with_children nd cs) = node_marks nd"
  "node_content (with_children nd cs) = node_content nd"
  "node_children (with_children nd cs) = cs"
  by (simp_all add: with_children_def)

lemma call_resolver_pure:
  assumes "res \<noteq> TextResolver" and "node_attrs a = node_attrs b" and "node_text a = node_text b"
    and "children_string (node_children a) = children_string (node_children b)"
  shows "call_resolver f res a = call_resolver g res b"
proof -
  have 1: "documentResolver a = documentResolver b"
    unfolding documentResolver_def assms(4) by (rule refl)
  have 2: "headingResolver a = headingResolver b"
    unfolding headingResolver_def assms(2) assms(4) by (rule refl)
  have 3: "nodeResolver tag a = nodeResolver tag b" for tag
    unfolding nodeResolver_def assms(2) assms(4) by (rule refl)
  have 4: "linkResolver a = linkResolver b"
    unfolding linkResolver_def assms(2) assms(3) by (rule refl)
  have 5: "markResolver tag a = markResolver tag b" for tag
    unfolding markResolver_def assms(2) assms(3) by (rule refl)
  show ?thesis
    using assms(1) by (cases res) (simp_all add: call_resolver_def 1 2 3 4 5)
qed

lemma unregistered_renderNode:
  assumes "\<not> registered u"
  shows "renderNode (Suc fuel) u = Some ([], [no_resolver_diagnostic (node_type u)])"
  using assms by (simp add: registered_def)

lemma unregistered_render_empty:
  assumes "\<not> registered u" and "render fuel (Single u) = Some (s, ds)"
  shows "s = []"
proof (cases fuel)
  case 0
  with assms show ?thesis by simp
next
  case (Suc f1)
  show ?thesis
  proof (cases f1)
    case 0
    with Suc assms show ?thesis by simp
  next
    case (Suc f2)
    with \<open>fuel = Suc f1\<close> assms show ?thesis by (simp add: registered_def)
  qed
qed

lemma textResolver_prune:
  assumes "node_type nd = ''text''" and "textResolver fuel (prune nd) = Some r"
  shows "textResolver (Suc k) nd = Some r"
proof (cases fuel)
  case 0
  with assms show ?thesis by simp
next
  case (Suc f)
  show ?thesis
  proof (cases "node_text nd")
    case None
    with Suc assms show ?thesis by simp
  next
    case (Some t)
    show ?thesis
    proof (cases "node_marks nd")
      case None
      with Suc Some assms show ?thesis by simp
    next
      case (Some ms)
      have "render f (Single (prune nd)) = None"
        by (rule marked_text_diverges [where t = t and ms = ms])
           (simp_all add: assms(1) \<open>node_text nd = Some t\<close> Some)
      with Suc Some \<open>node_text nd = Some t\<close> assms show ?thesis by simp
    qed
  qed
qed

lemma textResolver_prune_forward:
  assumes "node_type nd = ''text''" and "textResolver fuel nd = Some r"
  shows "textResolver fuel (prune nd) = Some r"
proof (cases fuel)
  case 0
  with assms show ?thesis by simp
next
  case (Suc f)
  show ?thesis
  proof (cases "node_text nd")
    case None
    with Suc assms show ?thesis by simp
  next
    case (Some t)
    show ?thesis
    proof (cases "node_marks nd")
      case None
      with Suc Some assms show ?thesis by simp
    next
      case (Some ms)
      have "render f (Single nd) = None"
        by (rule marked_text_diverges [where t = t and ms = ms])
           (simp_all add: assms(1) \<open>node_text nd = Some t\<close> Some)
      with Suc Some \<open>node_text nd = Some t\<close> assms show ?thesis by simp
    qed
  qed
qed

lemma array_map_prune_forward:
  assumes "\<And>c s ds. render f (Single c) = Some (s, ds) \<Longrightarrow>
             \<exists>ds'. render f (Single (prune c)) = Some (s, ds')"
    and "array_map (\<lambda>c. render f (Single c)) cs = Some (ss, ds)"
  shows "\<exists>ss' ds'. array_map (\<lambda>c. render f (Single c)) (filter registered (map prune cs)) =
           Some (ss', ds') \<and> concat ss' = concat ss"
  using assms(2)
proof (induction cs arbitrary: ss ds)
  case Nil
  then show ?case by simp
next
  case (Cons c cs)
  from Cons.prems obtain s d ss0 ds0 where
    c: "render f (Single c) = Some (s, d)"
    and r: "array_map (\<lambda>c. render f (Single c)) cs = Some (ss0, ds0)"
    and e: "ss = s # ss0"
    by (auto simp del: render.simps split: option.splits)
  from Cons.IH [OF r] obtain ss' ds' where
    i: "array_map (\<lambda>c. render f (Single c)) (filter registered (map prune cs)) = Some (ss', ds')"
    and j: "concat ss' = concat ss0"
    by blast
  show ?case
  proof (cases "registered c")
    case True
    from assms(1) [OF c] obtain d' where "render f (Single (prune c)) = Some (s, d')" by blast
    with True i j e show ?thesis by (simp del: render.simps)
  next
    case False
    have "s = []" using False c by (rule unregistered_render_empty)
    with False i j e show ?thesis by (simp del: render.simps)
  qed
qed

lemma array_map_prune_backward:
  assumes "\<And>c s ds. render f (Single (prune c)) = Some (s, ds) \<Longrightarrow>
             \<exists>ds'. render (Suc (Suc f)) (Single c) = Some (s, ds')"
    and "array_map (\<lambda>c. render f (Single c)) (filter registered (map prune cs)) = Some (ss', ds')"
  shows "\<exists>ss ds. array_map (\<lambda>c. render (Suc (Suc f)) (Single c)) cs = Some (ss, ds) \<and>
           concat ss = concat ss'"
  using assms(2)
proof (induction cs arbitrary: ss' ds')
  case Nil
  then show ?case by simp
next
  case (Cons c cs)
  show ?case
  proof (cases "registered c")
    case True
    with Cons.prems obtain s d ss0 ds0 where
      c: "render f (Single (prune c)) = Some (s, d)"
      and r: "array_map (\<lambda>c. render f (Single c)) (filter registered (map prune cs)) = Some (ss0, ds0)"
      and e: "ss' = s # ss0"
      by (auto simp del: render.simps split: option.splits)
    from Cons.IH [OF r] obtain ss ds where
      i: "array_map (\<lambda>c. render (Suc (Suc f)) (Single c)) cs = Some (ss, ds)"
      and j: "concat ss = concat ss0"
      by blast
    from assms(1) [OF c] obtain d' where "render (Suc (Suc f)) (Single c) = Some (s, d')" by blast
    with i j e show ?thesis by (simp del: render.simps)
  next
    case False
    with Cons.prems have
      r: "array_map (\<lambda>c. render f (Single c)) (filter registered (map prune cs)) = Some (ss', ds')"
      by simp
    from Cons.IH [OF r] obtain ss ds where
      i: "array_map (\<lambda>c. render (Suc (Suc f)) (Single c)) cs = Some (ss, ds)"
      and j: "concat ss = concat ss'"
      by blast
    have "render (Suc (Suc f)) (Single c) = Some ([], [no_resolver_diagnostic (node_type c)])"
      using False by (simp add: registered_def)
    with i j show ?thesis by (simp del: render.simps)
  qed
qed


lemma resolver_not_text:
  assumes "map_of resolvers t = Some res" and "t \<noteq> ''text''"
  shows "res \<noteq> TextResolver"
  using assms resolvers_TextResolver by blast

lemma prune_forward:
  "render fuel (Single nd) = Some (s, ds) \<Longrightarrow> \<exists>ds'. render fuel (Single (prune nd)) = Some (s, ds')"
proof (induction fuel arbitrary: nd s ds rule: less_induct)
  case (less fuel)
  show ?case
  proof (cases fuel)
    case 0
    with less.prems show ?thesis by simp
  next
    case (Suc f1)
    show ?thesis
    proof (cases f1)
      case 0
      with Suc less.prems show ?thesis by simp
    next
      case (Suc f)
      have fuel: "fuel = Suc (Suc f)" using \<open>fuel = Suc f1\<close> Suc by simp
      have h: "renderNode (Suc f) nd = Some (s, ds)" using less.prems fuel by simp
      have goal: "\<exists>ds'. renderNode (Suc f) (prune nd) = Some (s, ds')"
      proof (cases "map_of resolvers (node_type nd)")
        case None
        with h show ?thesis by simp
      next
        case (Some res)
        show ?thesis
        proof (cases "node_type nd = ''text''")
          case True
          with Some have "res = TextResolver" by (simp add: resolvers_text)
          with h Some True have "textResolver f nd = Some (s, ds)"
            by (simp add: call_resolver_def)
          then have "textResolver f (prune nd) = Some (s, ds)"
            using True by (intro textResolver_prune_forward)
          with Some True \<open>res = TextResolver\<close> show ?thesis
            by (simp add: call_resolver_def del: textResolver.simps)
        next
          case False
          have pure: "res \<noteq> TextResolver" using Some False by (rule resolver_not_text)
          show ?thesis
          proof (cases "node_content nd")
            case None
            with h Some False obtain d2 where
              c: "call_resolver (\<lambda>n. textResolver f n) res (with_children nd None) = Some (s, d2)"
              by (auto split: option.splits)
            have "call_resolver (\<lambda>n. textResolver f n) res (with_children (prune nd) None) =
                  call_resolver (\<lambda>n. textResolver f n) res (with_children nd None)"
              using pure by (rule call_resolver_pure) simp_all
            with c None Some False show ?thesis
              by (simp del: textResolver.simps)
          next
            case (Some cs)
            with h \<open>map_of resolvers (node_type nd) = Some res\<close> False obtain ss d1 d2 where
              a: "array_map (\<lambda>c. render f (Single c)) cs = Some (ss, d1)"
              and c: "call_resolver (\<lambda>n. textResolver f n) res (with_children nd (Some ss)) = Some (s, d2)"
              by (auto split: option.splits)
            have ih: "\<exists>ds'. render f (Single (prune c)) = Some (s, ds')"
              if "render f (Single c) = Some (s, ds)" for c s ds
              using that less.IH [of f] fuel by simp
            have "\<exists>ss' d1'. array_map (\<lambda>c. render f (Single c))
                (filter registered (map prune cs)) = Some (ss', d1') \<and> concat ss' = concat ss"
            proof (rule array_map_prune_forward [OF _ a])
              fix c s ds
              assume "render f (Single c) = Some (s, ds)"
              then show "\<exists>ds'. render f (Single (prune c)) = Some (s, ds')" by (rule ih)
            qed
            then obtain ss' d1' where
              a': "array_map (\<lambda>c. render f (Single c)) (filter registered (map prune cs)) = Some (ss', d1')"
              and j: "concat ss' = concat ss"
              by blast
            have "call_resolver (\<lambda>n. textResolver f n) res (with_children (prune nd) (Some ss')) =
                  call_resolver (\<lambda>n. textResolver f n) res (with_children nd (Some ss))"
              using pure by (rule call_resolver_pure) (simp_all add: children_string_def join_empty j)
            with c a' Some \<open>map_of resolvers (node_type nd) = Some res\<close> False show ?thesis
              by (simp del: textResolver.simps render.simps)
          qed
        qed
      qed
      then show ?thesis using fuel by simp
    qed
  qed
qed

lemma prune_backward:
  "render fuel (Single (prune nd)) = Some (s, ds) \<Longrightarrow>
   \<exists>ds'. render (Suc (Suc fuel)) (Single nd) = Some (s, ds')"
proof (induction fuel arbitrary: nd s ds rule: less_induct)
  case (less fuel)
  show ?case
  proof (cases fuel)
    case 0
    with less.prems show ?thesis by simp
  next
    case (Suc f1)
    show ?thesis
    proof (cases f1)
      case 0
      with Suc less.prems show ?thesis by simp
    next
      case (Suc f)
      have fuel: "fuel = Suc (Suc f)" using \<open>fuel = Suc f1\<close> Suc by simp
      have h: "renderNode (Suc f) (prune nd) = Some (s, ds)" using less.prems fuel by simp
      have goal: "\<exists>ds'. renderNode (Suc (Suc (Suc f))) nd = Some (s, ds')"
      proof (cases "map_of resolvers (node_type nd)")
        case None
        with h show ?thesis by simp
      next
        case (Some res)
        show ?thesis
        proof (cases "node_type nd = ''text''")
          case True
          with Some have "res = TextResolver" by (simp add: resolvers_text)
          with h Some True have "textResolver f (prune nd) = Some (s, ds)"
            by (simp add: call_resolver_def)
          with True have "textResolver (Suc (Suc f)) nd = Some (s, ds)"
            by (rule textResolver_prune)
          with Some True \<open>res = TextResolver\<close> show ?thesis
            by (simp add: call_resolver_def del: textResolver.simps)
        next
          case False
          have pure: "res \<noteq> TextResolver" using Some False by (rule resolver_not_text)
          show ?thesis
          proof (cases "node_content nd")
            case None
            with h Some False obtain d2 where
              c: "call_resolver (\<lambda>n. textResolver f n) res (with_children (prune nd) None) = Some (s, d2)"
              by (auto split: option.splits)
            have "call_resolver (\<lambda>n. textResolver (Suc (Suc f)) n) res (with_children nd None) =
                  call_resolver (\<lambda>n. textResolver f n) res (with_children (prune nd) None)"
              using pure by (rule call_resolver_pure) simp_all
            with c None Some False show ?thesis
              by (simp del: textResolver.simps)
          next
            case (Some cs)
            with h \<open>map_of resolvers (node_type nd) = Some res\<close> False obtain ss' d1 d2 where
              a: "array_map (\<lambda>c. render f (Single c)) (filter registered (map prune cs)) = Some (ss', d1)"
              and c: "call_resolver (\<lambda>n. textResolver f n) res (with_children (prune nd) (Some ss')) = Some (s, d2)"
              by (auto split: option.splits)
            have ih: "\<exists>ds'. render (Suc (Suc f)) (Single c) = Some (s, ds')"
              if "render f (Single (prune c)) = Some (s, ds)" for c s ds
              using that less.IH [of f] fuel by simp
            have "\<exists>ss d1'. array_map (\<lambda>c. render (Suc (Suc f)) (Single c)) cs = Some (ss, d1') \<and>
                concat ss = concat ss'"
            proof (rule array_map_prune_backward [OF _ a])
              fix c s ds
              assume "render f (Single (prune c)) = Some (s, ds)"
              then show "\<exists>ds'. render (Suc (Suc f)) (Single c) = Some (s, ds')" by (rule ih)
            qed
            then obtain ss d1' where
              a': "array_map (\<lambda>c. render (Suc (Suc f)) (Single c)) cs = Some (ss, d1')"
              and j: "concat ss = concat ss'"
              by blast
            have "call_resolver (\<lambda>n. textResolver (Suc (Suc f)) n) res (with_children nd (Some ss)) =
                  call_resolver (\<lambda>n. textResolver f n) res (with_children (prune nd) (Some ss'))"
              using pure by (rule call_resolver_pure) (simp_all add: children_string_def join_empty j)
            with c a' Some \<open>map_of resolvers (node_type nd) = Some res\<close> False show ?thesis
              by (simp del: textResolver.simps render.simps)
          qed
        qed
      qed
      then show ?thesis using fuel by simp
    qed
  qed
qed

lemma render_Single_Suc: "(\<lambda>c. render (Suc f) (Single c)) = renderNode f"
  by (rule ext) simp

lemma array_map_append:
  assumes "array_map f xs = Some (a, d1)" and "array_map f ys = Some (b, d2)"
  shows "array_map f (xs @ ys) = Some (a @ b, d1 @ d2)"
  using assms(1)
proof (induction xs arbitrary: a d1)
  case Nil
  with assms(2) show ?case by simp
next
  case (Cons x xs)
  then show ?case by (auto split: option.splits)
qed

lemma prune_input_forward:
  assumes "render fuel inp = Some (s, ds)"
  shows "\<exists>ds'. render fuel (prune_input inp) = Some (s, ds')"
proof (cases inp)
  case Missing
  with assms show ?thesis by simp
next
  case (Single nd)
  with assms show ?thesis by (simp add: prune_forward del: render.simps)
next
  case (Sequence nodes)
  show ?thesis
  proof (cases fuel)
    case 0
    with assms show ?thesis by simp
  next
    case (Suc f)
    with assms Sequence obtain ss where
      a: "array_map (renderNode f) nodes = Some (ss, ds)" and s: "s = join [] ss"
      by (auto split: option.splits)
    have "\<exists>ss' ds'. array_map (\<lambda>c. render (Suc f) (Single c))
        (filter registered (map prune nodes)) = Some (ss', ds') \<and> concat ss' = concat ss"
    proof (rule array_map_prune_forward)
      fix c s ds
      assume "render (Suc f) (Single c) = Some (s, ds)"
      then show "\<exists>ds'. render (Suc f) (Single (prune c)) = Some (s, ds')" by (rule prune_forward)
    next
      show "array_map (\<lambda>c. render (Suc f) (Single c)) nodes = Some (ss, ds)"
        using a by (simp only: render_Single_Suc)
    qed
    then obtain ss' ds' where
      "array_map (renderNode f) (filter registered (map prune nodes)) = Some (ss', ds')"
      and "concat ss' = concat ss"
      unfolding render_Single_Suc by blast
    with s Suc Sequence show ?thesis
      by (simp add: join_empty del: renderNode.simps)
  qed
qed

lemma prune_input_backward:
  assumes "render fuel (prune_input inp) = Some (s, ds)"
  shows "\<exists>ds'. render (Suc (Suc fuel)) inp = Some (s, ds')"
proof (cases inp)
  case Missing
  with assms show ?thesis by (cases fuel) simp_all
next
  case (Single nd)
  with assms show ?thesis by (simp add: prune_backward del: render.simps)
next
  case (Sequence nodes)
  show ?thesis
  proof (cases fuel)
    case 0
    with assms show ?thesis by simp
  next
    case (Suc f)
    with assms Sequence obtain ss' where
      a: "array_map (renderNode f) (filter registered (map prune nodes)) = Some (ss', ds)"
      and s: "s = join [] ss'"
      by (auto split: option.splits)
    have "\<exists>ss ds'. array_map (\<lambda>c. render (Suc (Suc (Suc f))) (Single c)) nodes = Some (ss, ds') \<and>
        concat ss = concat ss'"
    proof (rule array_map_prune_backward)
      fix c s ds
      assume "render (Suc f) (Single (prune c)) = Some (s, ds)"
      then show "\<exists>ds'. render (Suc (Suc (Suc f))) (Single c) = Some (s, ds')"
        by (rule prune_backward)
    next
      show "array_map (\<lambda>c. render (Suc f) (Single c)) (filter registered (map prune nodes)) =
          Some (ss', ds)"
        using a by (simp only: render_Single_Suc)
    qed
    then obtain ss ds' where
      "array_map (renderNode (Suc (Suc f))) nodes = Some (ss, ds')"
      and "concat ss = concat ss'"
      unfolding render_Single_Suc by blast
    with s Suc Sequence show ?thesis
      by (simp add: join_empty del: renderNode.simps)
  qed
qed

lemma unregistered_between:
  assumes "\<not> registered u"
    and "render (Suc (Suc fuel)) (Sequence xs) = Some (s1, d1)"
    and "render (Suc (Suc fuel)) (Sequence ys) = Some (s2, d2)"
  shows "render (Suc (Suc fuel)) (Sequence (xs @ u # ys)) =
           Some (s1 @ s2, d1 @ no_resolver_diagnostic (node_type u) # d2)"
proof -
  from assms(2) obtain a where
    x: "array_map (renderNode (Suc fuel)) xs = Some (a, d1)" and s1: "s1 = concat a"
    by (auto simp: join_empty simp del: renderNode.simps split: option.splits)
  from assms(3) obtain b where
    y: "array_map (renderNode (Suc fuel)) ys = Some (b, d2)" and s2: "s2 = concat b"
    by (auto simp: join_empty simp del: renderNode.simps split: option.splits)
  have "array_map (renderNode (Suc fuel)) (u # ys) =
      Some ([] # b, no_resolver_diagnostic (node_type u) # d2)"
    using y unregistered_renderNode [OF assms(1), of fuel] by (simp del: renderNode.simps)
  with x have "array_map (renderNode (Suc fuel)) (xs @ u # ys) =
      Some (a @ [] # b, d1 @ no_resolver_diagnostic (node_type u) # d2)"
    by (rule array_map_append)
  with s1 s2 show ?thesis
    by (simp add: join_empty del: renderNode.simps)
qed

text \<open>
  Claim C5. A node whose type has no resolver renders, with room for two nested calls or
  more and whatever its subtree holds, to the empty string and prints one error. Between
  siblings of a sequence it adds nothing to the string and its error to the diagnostics.
  At any depth: a call that returns on a tree returns the same string on the tree with all
  such nodes left out of every \<open>content\<close> list, and a call that returns on the tree
  without them returns the same string on the tree with them, given room for two more
  nested calls.
\<close>

theorem unknown_node_contributes_nothing:
  assumes "\<not> registered u"
  shows "render (Suc (Suc fuel)) (Single u) = Some ([], [no_resolver_diagnostic (node_type u)]) \<and>
    (\<forall>xs ys s1 d1 s2 d2.
       render (Suc (Suc fuel)) (Sequence xs) = Some (s1, d1) \<and>
       render (Suc (Suc fuel)) (Sequence ys) = Some (s2, d2) \<longrightarrow>
       render (Suc (Suc fuel)) (Sequence (xs @ u # ys)) =
         Some (s1 @ s2, d1 @ no_resolver_diagnostic (node_type u) # d2)) \<and>
    (\<forall>inp s ds. render fuel inp = Some (s, ds) \<longrightarrow>
       (\<exists>ds'. render fuel (prune_input inp) = Some (s, ds'))) \<and>
    (\<forall>inp s ds. render fuel (prune_input inp) = Some (s, ds) \<longrightarrow>
       (\<exists>ds'. render (Suc (Suc fuel)) inp = Some (s, ds')))"
proof -
  have 1: "render (Suc (Suc fuel)) (Single u) = Some ([], [no_resolver_diagnostic (node_type u)])"
    using unregistered_renderNode [OF assms, of fuel] by (simp del: renderNode.simps)
  show ?thesis
    using 1 unregistered_between [OF assms] prune_input_forward prune_input_backward
    by blast
qed

theorem unknown_node_contributes_nothing_witness:
  "render 2 (Single unknown_example) =
     Some ([], [ConsoleError [''<Storyblok>'', ''No resolver found for node type blockquote'']]) \<and>
   render 4 (Sequence [text_node ''a'' None, unknown_example, text_node ''b'' None]) =
     Some (''ab'', [ConsoleError [''<Storyblok>'', ''No resolver found for node type blockquote'']]) \<and>
   (\<exists>ds. render 9 (Single document_with_unknown) = Some (''<div><p >ab</p></div>'', ds))"
proof -
  have u: "\<not> registered unknown_example"
    by (simp add: registered_def unknown_example_def block_node_def resolvers_def type_defs)
  have d: "no_resolver_diagnostic (node_type unknown_example) =
      ConsoleError [''<Storyblok>'', ''No resolver found for node type blockquote'']"
    by (simp add: no_resolver_diagnostic_def unknown_example_def block_node_def)
  have e: "escapeHtml ''a'' = ''a''" "escapeHtml ''b'' = ''b''"
    by (simp_all add: escapeHtml_def replace_all_def)
  have 1: "render (Suc (Suc 0)) (Single unknown_example) =
      Some ([], [ConsoleError [''<Storyblok>'', ''No resolver found for node type blockquote'']])"
    using unknown_node_contributes_nothing [OF u, of 0, THEN conjunct1] unfolding d .
  have a: "render (Suc (Suc (Suc (Suc 0)))) (Sequence [text_node ''a'' None]) = Some (''a'', [])"
    by (simp add: text_node_def resolvers_text call_resolver_def e)
  have b: "render (Suc (Suc (Suc (Suc 0)))) (Sequence [text_node ''b'' None]) = Some (''b'', [])"
    by (simp add: text_node_def resolvers_text call_resolver_def e)
  have 2: "render (Suc (Suc (Suc (Suc 0))))
      (Sequence ([text_node ''a'' None] @ unknown_example # [text_node ''b'' None])) =
      Some (''a'' @ ''b'', [] @ no_resolver_diagnostic (node_type unknown_example) # [])"
    using unknown_node_contributes_nothing [OF u, of "Suc (Suc 0)", THEN conjunct2, THEN conjunct1]
      a b by blast
  have p: "prune_input (Single document_with_unknown) =
      Single (block_node ''document''
        [block_node ''paragraph'' [text_node ''a'' None, text_node ''b'' None]])"
    by (simp add: document_with_unknown_def unknown_example_def bold_text_example_def
        block_node_def text_node_def registered_def resolvers_def type_defs)
  have c: "render (Suc (Suc (Suc (Suc (Suc (Suc (Suc 0))))))) (prune_input (Single document_with_unknown)) =
      Some (''<div><p >ab</p></div>'', [])"
    unfolding p
    by (simp add: block_node_def text_node_def resolvers_document resolvers_paragraph
        resolvers_text call_resolver_def with_children_def e documentResolver_def
        nodeResolver_def children_string_def attrsToString_def)
  have 3: "\<exists>ds. render (Suc (Suc (Suc (Suc (Suc (Suc (Suc (Suc (Suc 0)))))))))
      (Single document_with_unknown) = Some (''<div><p >ab</p></div>'', ds)"
    using unknown_node_contributes_nothing [OF u, of "Suc (Suc (Suc (Suc (Suc (Suc (Suc 0))))))",
        THEN conjunct2, THEN conjunct2, THEN conjunct2] c by blast
  have n: "(2::nat) = Suc (Suc 0)" "(4::nat) = Suc (Suc (Suc (Suc 0)))"
    "(9::nat) = Suc (Suc (Suc (Suc (Suc (Suc (Suc (Suc (Suc 0))))))))"
    by simp_all
  from 1 2 3 show ?thesis unfolding n d by (simp del: render.simps)
qed

end
